theory Spec2Isabelle
  imports Main
begin

section \<open>Data model\<close>

text \<open>
  The exceptions the modelled code can raise. \<open>ValueError\<close> is the spec's NotFound,
  \<open>IndexError\<close> its IndexOutOfRange; \<open>AssertionError\<close> comes from the two
  \<^verbatim>\<open>assert self._is_unique_and_sorted()\<close> statements and \<open>AttributeError\<close> from reading
  \<^verbatim>\<open>rhs._items\<close> on an object that has no such attribute.
\<close>

datatype error = ValueError | IndexError | AssertionError | AttributeError

text \<open>
  \<^verbatim>\<open>class SortedSet(Sequence, Set)\<close> has the single attribute \<^verbatim>\<open>_items\<close>, a Python list.
  The element type is any linearly ordered type (the spec's totally ordered T).
\<close>

record 'a sorted_set =
  items :: "'a list"

text \<open>
  The objects that can stand on the right of an operator: a SortedSet, or an object of
  another class: the keys view of a mapping (a \<^verbatim>\<open>collections.abc.KeysView\<close>, as
  \<^verbatim>\<open>UserDict(...).keys()\<close> returns, given by the list of its keys), which is another
  implementation of \<^verbatim>\<open>collections.abc.Set\<close>; a plain list; an integer; None. An iterable
  argument is modelled by the list of the elements it yields.
\<close>

datatype 'a pyobj =
    SortedSetObj "'a sorted_set"
  | KeysViewObj "'a list"
  | ListObj "'a list"
  | IntObj int
  | NoneObj

text \<open>The argument of a subscription \<^verbatim>\<open>s[index]\<close> and what it evaluates to.\<close>

datatype subscript = Index int | Slice "int option" "int option" "int option"

datatype 'a subscripted = Element 'a | Sublist "'a list"


section \<open>The Python built-ins the class relies on\<close>

text \<open>
  \<^verbatim>\<open>list.__getitem__\<close> with an integer: a negative index is counted from the end, and an
  index that is still outside the list raises IndexError.
\<close>

definition list_getitem :: "'a list \<Rightarrow> int \<Rightarrow> error + 'a" where
  "list_getitem xs i =
     (let n = int (length xs);
          j = (if i < 0 then i + n else i)
      in if j < 0 \<or> n \<le> j then Inl IndexError else Inr (xs ! nat j))"

text \<open>
  \<^verbatim>\<open>slice(start, stop, step).indices(n)\<close>: the step defaults to 1 and must not be 0; a
  negative bound is counted from the end; every bound is then clamped.
\<close>

definition slice_indices ::
  "int \<Rightarrow> int option \<Rightarrow> int option \<Rightarrow> int option \<Rightarrow> error + (int \<times> int \<times> int)" where
  "slice_indices n starto stopo stepo =
     (let step = (case stepo of None \<Rightarrow> 1 | Some k \<Rightarrow> k)
      in if step = 0 then Inl ValueError
         else
           (let lower = (if step < 0 then - 1 else 0);
                upper = (if step < 0 then n - 1 else n);
                start = (case starto of
                           None \<Rightarrow> (if step < 0 then upper else lower)
                         | Some i \<Rightarrow> (if i < 0 then max (i + n) lower else min i upper));
                stop = (case stopo of
                          None \<Rightarrow> (if step < 0 then lower else upper)
                        | Some i \<Rightarrow> (if i < 0 then max (i + n) lower else min i upper))
            in Inr (start, stop, step)))"

text \<open>The number of positions a slice with adjusted bounds selects.\<close>

definition slice_length :: "int \<Rightarrow> int \<Rightarrow> int \<Rightarrow> int" where
  "slice_length start stop step =
     (if step < 0
      then (if stop < start then (start - stop - 1) div (- step) + 1 else 0)
      else (if start < stop then (stop - start - 1) div step + 1 else 0))"

text \<open>
  \<^verbatim>\<open>list.__getitem__\<close> with a slice: a new list of the elements at
  \<open>start, start + step, ...\<close>, \<open>slice_length\<close> of them.
\<close>

definition list_getslice ::
  "'a list \<Rightarrow> int option \<Rightarrow> int option \<Rightarrow> int option \<Rightarrow> error + 'a list" where
  "list_getslice xs starto stopo stepo =
     (case slice_indices (int (length xs)) starto stopo stepo of
        Inl e \<Rightarrow> Inl e
      | Inr (start, stop, step) \<Rightarrow>
          Inr (map (\<lambda>k. xs ! nat (start + int k * step))
                 [0 ..< nat (slice_length start stop step)]))"

text \<open>\<^verbatim>\<open>range(n)\<close>, empty when \<open>n \<le> 0\<close>.\<close>

definition py_range :: "int \<Rightarrow> int list" where
  "py_range n = map int [0 ..< nat n]"

text \<open>
  \<^verbatim>\<open>bisect.bisect_left(a, x)\<close> with the default bounds \<open>lo = 0\<close> and \<open>hi = len(a)\<close>:
  \<^verbatim>\<open>
  while lo < hi:
      mid = (lo + hi) // 2
      if a[mid] < x: lo = mid + 1
      else: hi = mid
  return lo
  \<close>
  Every \<open>mid\<close> the loop reads lies below \<open>hi \<le> len(a)\<close>.
\<close>

function bisect_left_loop :: "'a::linorder list \<Rightarrow> 'a \<Rightarrow> nat \<Rightarrow> nat \<Rightarrow> nat" where
  "bisect_left_loop a x lo hi =
     (if lo < hi
      then (let mid = (lo + hi) div 2
            in if a ! mid < x then bisect_left_loop a x (mid + 1) hi
               else bisect_left_loop a x lo mid)
      else lo)"
  by pat_completeness auto
termination
  by (relation "measure (\<lambda>(a, x, lo, hi). hi - lo)") auto

declare bisect_left_loop.simps [simp del]

definition bisect_left :: "'a::linorder list \<Rightarrow> 'a \<Rightarrow> nat" where
  "bisect_left a x = bisect_left_loop a x 0 (length a)"


section \<open>The class SortedSet\<close>

text \<open>
  \<^verbatim>\<open>self._items = sorted(set(items)) if items is not None else []\<close>
\<close>

definition SortedSet :: "'a::linorder list option \<Rightarrow> 'a sorted_set" where
  "SortedSet src =
     (case src of
        None \<Rightarrow> \<lparr>items = []\<rparr>
      | Some xs \<Rightarrow> \<lparr>items = sorted_list_of_set (set xs)\<rparr>)"

text \<open>\<^verbatim>\<open>__len__\<close> and \<^verbatim>\<open>__iter__\<close>.\<close>

definition SortedSet_len :: "'a sorted_set \<Rightarrow> nat" where
  "SortedSet_len self = length (items self)"

definition SortedSet_iter :: "'a sorted_set \<Rightarrow> 'a list" where
  "SortedSet_iter self = items self"

text \<open>
  \<^verbatim>\<open>__getitem__\<close> returns \<^verbatim>\<open>self._items[index]\<close>; the second \<^verbatim>\<open>return\<close> of the source
  is never reached. \<open>at\<close> is the case of an integer index, \<^verbatim>\<open>self[i]\<close>.
\<close>

definition at :: "'a sorted_set \<Rightarrow> int \<Rightarrow> error + 'a" where
  "at self i = list_getitem (items self) i"

definition SortedSet_getitem :: "'a sorted_set \<Rightarrow> subscript \<Rightarrow> error + 'a subscripted" where
  "SortedSet_getitem self index =
     (case index of
        Index i \<Rightarrow>
          (case at self i of Inl e \<Rightarrow> Inl e | Inr v \<Rightarrow> Inr (Element v))
      | Slice starto stopo stepo \<Rightarrow>
          (case list_getslice (items self) starto stopo stepo of
             Inl e \<Rightarrow> Inl e | Inr vs \<Rightarrow> Inr (Sublist vs)))"

text \<open>
  \<^verbatim>\<open>all(self[i] < self[i + 1] for i in range(len(self) - 1))\<close>: the generator is
  consumed from the left and stops at the first false comparison.
\<close>

fun all_adjacent_less :: "'a::linorder sorted_set \<Rightarrow> int list \<Rightarrow> error + bool" where
  "all_adjacent_less self [] = Inr True"
| "all_adjacent_less self (i # rest) =
     (case at self i of
        Inl e \<Rightarrow> Inl e
      | Inr a \<Rightarrow>
          (case at self (i + 1) of
             Inl e \<Rightarrow> Inl e
           | Inr b \<Rightarrow> if a < b then all_adjacent_less self rest else Inr False))"

definition is_unique_and_sorted :: "'a::linorder sorted_set \<Rightarrow> error + bool" where
  "is_unique_and_sorted self =
     all_adjacent_less self (py_range (int (SortedSet_len self) - 1))"

text \<open>
  \<^verbatim>\<open>
  def index(self, item):
      assert self._is_unique_and_sorted()
      index = bisect_left(self._items, item)
      if (index != len(self._items)) and (self._items[index] == item):
          return index
      raise ValueError(...)
  \<close>
\<close>

definition index :: "'a::linorder sorted_set \<Rightarrow> 'a \<Rightarrow> error + nat" where
  "index self item =
     (case is_unique_and_sorted self of
        Inl e \<Rightarrow> Inl e
      | Inr ok \<Rightarrow>
          if \<not> ok then Inl AssertionError
          else
            (let i = bisect_left (items self) item
             in if i \<noteq> length (items self)
                then (case list_getitem (items self) (int i) of
                        Inl e \<Rightarrow> Inl e
                      | Inr v \<Rightarrow> if v = item then Inr i else Inl ValueError)
                else Inl ValueError))"

text \<open>
  \<^verbatim>\<open>__contains__\<close> calls \<^verbatim>\<open>self.index(item)\<close> and catches ValueError only.
\<close>

definition SortedSet_contains :: "'a::linorder sorted_set \<Rightarrow> 'a \<Rightarrow> error + bool" where
  "SortedSet_contains self item =
     (case index self item of
        Inr i \<Rightarrow> Inr True
      | Inl ValueError \<Rightarrow> Inr False
      | Inl e \<Rightarrow> Inl e)"

text \<open>
  \<^verbatim>\<open>
  def count(self, item):
      assert self._is_unique_and_sorted()
      return int(item in self)
  \<close>
\<close>

definition count :: "'a::linorder sorted_set \<Rightarrow> 'a \<Rightarrow> error + int" where
  "count self item =
     (case is_unique_and_sorted self of
        Inl e \<Rightarrow> Inl e
      | Inr ok \<Rightarrow>
          if \<not> ok then Inl AssertionError
          else (case SortedSet_contains self item of
                  Inl e \<Rightarrow> Inl e
                | Inr b \<Rightarrow> Inr (if b then 1 else 0)))"

text \<open>
  \<^verbatim>\<open>__eq__\<close> and \<^verbatim>\<open>__ne__\<close>: \<open>None\<close> stands for the singleton NotImplemented, returned
  when \<^verbatim>\<open>rhs\<close> is not a SortedSet.
\<close>

definition SortedSet_eq :: "'a sorted_set \<Rightarrow> 'a pyobj \<Rightarrow> bool option" where
  "SortedSet_eq self rhs =
     (case rhs of
        SortedSetObj r \<Rightarrow> Some (items self = items r)
      | _ \<Rightarrow> None)"


text \<open>
  \<^verbatim>\<open>rhs._items\<close>: only a SortedSet has the attribute.
\<close>

definition getattr_items :: "'a pyobj \<Rightarrow> error + 'a list" where
  "getattr_items obj =
     (case obj of
        SortedSetObj r \<Rightarrow> Inr (items r)
      | _ \<Rightarrow> Inl AttributeError)"

text \<open>
  \<^verbatim>\<open>__add__\<close>: \<^verbatim>\<open>SortedSet(chain(self._items, rhs._items))\<close>.
\<close>

definition SortedSet_add :: "'a::linorder sorted_set \<Rightarrow> 'a pyobj \<Rightarrow> error + 'a sorted_set" where
  "SortedSet_add self rhs =
     (case getattr_items rhs of
        Inl e \<Rightarrow> Inl e
      | Inr ys \<Rightarrow> Inr (SortedSet (Some (items self @ ys))))"

text \<open>
  \<^verbatim>\<open>__mul__\<close>: \<^verbatim>\<open>self if rhs > 0 else SortedSet()\<close>, and \<^verbatim>\<open>__rmul__\<close>: \<^verbatim>\<open>self * lhs\<close>.
  For an integer \<open>n\<close>, \<^verbatim>\<open>n * s\<close> is \<^verbatim>\<open>s.__rmul__(n)\<close>, since \<^verbatim>\<open>int.__mul__\<close> returns
  NotImplemented for a SortedSet.
\<close>

definition SortedSet_mul :: "'a::linorder sorted_set \<Rightarrow> int \<Rightarrow> 'a sorted_set" where
  "SortedSet_mul self rhs = (if rhs > 0 then self else SortedSet None)"

definition SortedSet_rmul :: "'a::linorder sorted_set \<Rightarrow> int \<Rightarrow> 'a sorted_set" where
  "SortedSet_rmul self lhs = SortedSet_mul self lhs"


section \<open>The methods inherited from collections.abc.Set\<close>

text \<open>
  SortedSet defines none of \<^verbatim>\<open>& | - ^ <= < >= >\<close> and \<^verbatim>\<open>isdisjoint\<close>; they are the mixin
  methods of \<^verbatim>\<open>collections.abc.Set\<close>, written in terms of \<^verbatim>\<open>__contains__\<close>,
  \<^verbatim>\<open>__iter__\<close>, \<^verbatim>\<open>__len__\<close> and \<^verbatim>\<open>_from_iterable\<close> (which calls the constructor).
  A generator expression with a condition is consumed from the left; an exception raised
  by the condition ends it.
\<close>

fun filter_err :: "('a \<Rightarrow> error + bool) \<Rightarrow> 'a list \<Rightarrow> error + 'a list" where
  "filter_err p [] = Inr []"
| "filter_err p (x # xs) =
     (case p x of
        Inl e \<Rightarrow> Inl e
      | Inr b \<Rightarrow>
          (case filter_err p xs of
             Inl e \<Rightarrow> Inl e
           | Inr ys \<Rightarrow> Inr (if b then x # ys else ys)))"

text \<open>\<^verbatim>\<open>value not in other\<close>.\<close>

definition not_contains :: "'a::linorder sorted_set \<Rightarrow> 'a \<Rightarrow> error + bool" where
  "not_contains self item =
     (case SortedSet_contains self item of Inl e \<Rightarrow> Inl e | Inr b \<Rightarrow> Inr (\<not> b))"

text \<open>
  \<^verbatim>\<open>
  def __and__(self, other):
      return self._from_iterable(value for value in other if value in self)
  \<close>
\<close>

definition Set_and :: "'a::linorder sorted_set \<Rightarrow> 'a sorted_set \<Rightarrow> error + 'a sorted_set" where
  "Set_and self other =
     (case filter_err (SortedSet_contains self) (SortedSet_iter other) of
        Inl e \<Rightarrow> Inl e
      | Inr vs \<Rightarrow> Inr (SortedSet (Some vs)))"

text \<open>
  \<^verbatim>\<open>
  def __or__(self, other):
      chain = (e for s in (self, other) for e in s)
      return self._from_iterable(chain)
  \<close>
\<close>

definition Set_or :: "'a::linorder sorted_set \<Rightarrow> 'a sorted_set \<Rightarrow> 'a sorted_set" where
  "Set_or self other = SortedSet (Some (SortedSet_iter self @ SortedSet_iter other))"

text \<open>
  \<^verbatim>\<open>
  def __sub__(self, other):
      ...
      return self._from_iterable(value for value in self if value not in other)
  \<close>
\<close>

definition Set_sub :: "'a::linorder sorted_set \<Rightarrow> 'a sorted_set \<Rightarrow> error + 'a sorted_set" where
  "Set_sub self other =
     (case filter_err (not_contains other) (SortedSet_iter self) of
        Inl e \<Rightarrow> Inl e
      | Inr vs \<Rightarrow> Inr (SortedSet (Some vs)))"

text \<open>
  \<^verbatim>\<open>
  def __xor__(self, other):
      ...
      return (self - other) | (other - self)
  \<close>
\<close>

definition Set_xor :: "'a::linorder sorted_set \<Rightarrow> 'a sorted_set \<Rightarrow> error + 'a sorted_set" where
  "Set_xor self other =
     (case Set_sub self other of
        Inl e \<Rightarrow> Inl e
      | Inr a \<Rightarrow>
          (case Set_sub other self of
             Inl e \<Rightarrow> Inl e
           | Inr b \<Rightarrow> Inr (Set_or a b)))"

text \<open>
  The loop \<^verbatim>\<open>for elem in xs: if elem not in c: return False\<close> followed by
  \<^verbatim>\<open>return True\<close>.
\<close>

fun all_contained :: "'a::linorder sorted_set \<Rightarrow> 'a list \<Rightarrow> error + bool" where
  "all_contained c [] = Inr True"
| "all_contained c (x # xs) =
     (case SortedSet_contains c x of
        Inl e \<Rightarrow> Inl e
      | Inr b \<Rightarrow> if \<not> b then Inr False else all_contained c xs)"

text \<open>
  \<^verbatim>\<open>
  def __le__(self, other):
      if len(self) > len(other): return False
      for elem in self:
          if elem not in other: return False
      return True
  def __lt__(self, other):
      return len(self) < len(other) and self.__le__(other)
  def __ge__(self, other):
      if len(self) < len(other): return False
      for elem in other:
          if elem not in self: return False
      return True
  def __gt__(self, other):
      return len(self) > len(other) and self.__ge__(other)
  \<close>
\<close>

definition Set_le :: "'a::linorder sorted_set \<Rightarrow> 'a sorted_set \<Rightarrow> error + bool" where
  "Set_le self other =
     (if SortedSet_len self > SortedSet_len other then Inr False
      else all_contained other (SortedSet_iter self))"

definition Set_lt :: "'a::linorder sorted_set \<Rightarrow> 'a sorted_set \<Rightarrow> error + bool" where
  "Set_lt self other =
     (if SortedSet_len self < SortedSet_len other then Set_le self other else Inr False)"

definition Set_ge :: "'a::linorder sorted_set \<Rightarrow> 'a sorted_set \<Rightarrow> error + bool" where
  "Set_ge self other =
     (if SortedSet_len self < SortedSet_len other then Inr False
      else all_contained self (SortedSet_iter other))"

definition Set_gt :: "'a::linorder sorted_set \<Rightarrow> 'a sorted_set \<Rightarrow> error + bool" where
  "Set_gt self other =
     (if SortedSet_len self > SortedSet_len other then Set_ge self other else Inr False)"

text \<open>
  \<^verbatim>\<open>
  def isdisjoint(self, other):
      for value in other:
          if value in self: return False
      return True
  \<close>
\<close>

fun isdisjoint :: "'a::linorder sorted_set \<Rightarrow> 'a list \<Rightarrow> error + bool" where
  "isdisjoint self [] = Inr True"
| "isdisjoint self (v # rest) =
     (case SortedSet_contains self v of
        Inl e \<Rightarrow> Inl e
      | Inr b \<Rightarrow> if b then Inr False else isdisjoint self rest)"


section \<open>The operators == and !=\<close>

text \<open>
  A keys view compares with the mixin methods of \<^verbatim>\<open>collections.abc.Set\<close>:
  \<^verbatim>\<open>
  def __eq__(self, other):
      if not isinstance(other, Set): return NotImplemented
      return len(self) == len(other) and self.__le__(other)
  \<close>
  where \<^verbatim>\<open>__le__\<close> is the method shown above: it asks the other operand for membership, a
  SortedSet through its \<^verbatim>\<open>__contains__\<close>, a keys view through its mapping.
\<close>

definition KeysView_eq :: "'a::linorder list \<Rightarrow> 'a pyobj \<Rightarrow> error + bool option" where
  "KeysView_eq keys other =
     (case other of
        SortedSetObj r \<Rightarrow>
          if length keys = SortedSet_len r
          then (if length keys > SortedSet_len r then Inr (Some False)
                else (case all_contained r keys of
                        Inl e \<Rightarrow> Inl e
                      | Inr b \<Rightarrow> Inr (Some b)))
          else Inr (Some False)
      | KeysViewObj ks \<Rightarrow>
          if length keys = length ks
          then (if length keys > length ks then Inr (Some False)
                else Inr (Some (list_all (\<lambda>k. k \<in> set ks) keys)))
          else Inr (Some False)
      | _ \<Rightarrow> Inr None)"

text \<open>
  The comparison methods by the class of the left operand: \<open>Inr None\<close> is NotImplemented,
  \<open>Inl\<close> an exception. A list, an integer and None answer for their own class and return
  NotImplemented for anything else. A keys view has no \<^verbatim>\<open>__ne__\<close> of its own: the default
  negates what \<^verbatim>\<open>__eq__\<close> returns, unless that is NotImplemented.
\<close>

definition class_eq :: "'a::linorder pyobj \<Rightarrow> 'a pyobj \<Rightarrow> error + bool option" where
  "class_eq a b =
     (case a of
        SortedSetObj s \<Rightarrow> Inr (SortedSet_eq s b)
      | KeysViewObj ks \<Rightarrow> KeysView_eq ks b
      | ListObj xs \<Rightarrow> Inr (case b of ListObj ys \<Rightarrow> Some (xs = ys) | _ \<Rightarrow> None)
      | IntObj m \<Rightarrow> Inr (case b of IntObj n \<Rightarrow> Some (m = n) | _ \<Rightarrow> None)
      | NoneObj \<Rightarrow> Inr (case b of NoneObj \<Rightarrow> Some True | _ \<Rightarrow> None))"


text \<open>
  The operators \<^verbatim>\<open>a == b\<close> and \<^verbatim>\<open>a != b\<close>: the method of the left operand; when it
  returns NotImplemented, the reflected method of the right operand; when that returns
  NotImplemented too, the comparison of identities. Both return NotImplemented only for
  operands of different classes, which are never the same object, so the last step gives
  False for \<^verbatim>\<open>==\<close> and True for \<^verbatim>\<open>!=\<close>.
\<close>

definition py_eq :: "'a::linorder pyobj \<Rightarrow> 'a pyobj \<Rightarrow> error + bool" where
  "py_eq a b =
     (case class_eq a b of
        Inl e \<Rightarrow> Inl e
      | Inr (Some r) \<Rightarrow> Inr r
      | Inr None \<Rightarrow>
          (case class_eq b a of
             Inl e \<Rightarrow> Inl e
           | Inr (Some r) \<Rightarrow> Inr r
           | Inr None \<Rightarrow> Inr False))"



section \<open>The set methods of SortedSet\<close>

text \<open>
  Each coerces its argument with the constructor and applies the inherited operator:
  \<^verbatim>\<open>self <= SortedSet(iterable)\<close>, \<^verbatim>\<open>self >= SortedSet(iterable)\<close>,
  \<^verbatim>\<open>self & SortedSet(iterable)\<close>, \<^verbatim>\<open>self | SortedSet(iterable)\<close>,
  \<^verbatim>\<open>self ^ SortedSet(iterable)\<close>, \<^verbatim>\<open>self - SortedSet(iterable)\<close>.
\<close>

definition issubset :: "'a::linorder sorted_set \<Rightarrow> 'a list \<Rightarrow> error + bool" where
  "issubset self iterable = Set_le self (SortedSet (Some iterable))"

definition issuperset :: "'a::linorder sorted_set \<Rightarrow> 'a list \<Rightarrow> error + bool" where
  "issuperset self iterable = Set_ge self (SortedSet (Some iterable))"

definition intersection :: "'a::linorder sorted_set \<Rightarrow> 'a list \<Rightarrow> error + 'a sorted_set" where
  "intersection self iterable = Set_and self (SortedSet (Some iterable))"

definition union_set :: "'a::linorder sorted_set \<Rightarrow> 'a list \<Rightarrow> 'a sorted_set" where
  "union_set self iterable = Set_or self (SortedSet (Some iterable))"

definition symmetric_difference ::
  "'a::linorder sorted_set \<Rightarrow> 'a list \<Rightarrow> error + 'a sorted_set" where
  "symmetric_difference self iterable = Set_xor self (SortedSet (Some iterable))"

definition difference :: "'a::linorder sorted_set \<Rightarrow> 'a list \<Rightarrow> error + 'a sorted_set" where
  "difference self iterable = Set_sub self (SortedSet (Some iterable))"


section \<open>The sets the interface can produce\<close>

text \<open>
  A SortedSet is reachable when the constructor built it or when an operation that
  returns a SortedSet returned it, applied to reachable sets.
\<close>

inductive reachable :: "'a::linorder sorted_set \<Rightarrow> bool" where
  by_init: "reachable (SortedSet src)"
| by_add: "reachable s \<Longrightarrow> SortedSet_add s rhs = Inr r \<Longrightarrow> reachable r"
| by_mul: "reachable s \<Longrightarrow> reachable (SortedSet_mul s n)"
| by_rmul: "reachable s \<Longrightarrow> reachable (SortedSet_rmul s n)"
| by_and: "reachable s \<Longrightarrow> reachable t \<Longrightarrow> Set_and s t = Inr r \<Longrightarrow> reachable r"
| by_or: "reachable s \<Longrightarrow> reachable t \<Longrightarrow> reachable (Set_or s t)"
| by_sub: "reachable s \<Longrightarrow> reachable t \<Longrightarrow> Set_sub s t = Inr r \<Longrightarrow> reachable r"
| by_xor: "reachable s \<Longrightarrow> reachable t \<Longrightarrow> Set_xor s t = Inr r \<Longrightarrow> reachable r"
| by_intersection: "reachable s \<Longrightarrow> intersection s it = Inr r \<Longrightarrow> reachable r"
| by_union: "reachable s \<Longrightarrow> reachable (union_set s it)"
| by_symmetric_difference:
    "reachable s \<Longrightarrow> symmetric_difference s it = Inr r \<Longrightarrow> reachable r"
| by_difference: "reachable s \<Longrightarrow> difference s it = Inr r \<Longrightarrow> reachable r"


section \<open>Auxiliary facts\<close>

subsection \<open>The sortedness test, the binary search and membership\<close>

lemma at_nat: "i < length (items s) \<Longrightarrow> at s (int i) = Inr (items s ! i)"
  by (simp add: at_def list_getitem_def)

lemma all_adjacent_less_upt:
  "m < length (items s) \<Longrightarrow>
   all_adjacent_less s (map int [k ..< m]) =
     Inr (\<forall>i. k \<le> i \<and> i < m \<longrightarrow> items s ! i < items s ! Suc i)"
proof (induction "m - k" arbitrary: k)
  case 0
  then show ?case by auto
next
  case (Suc d)
  then have km: "k < m" by simp
  have step: "[k ..< m] = k # [Suc k ..< m]" using km by (simp add: upt_conv_Cons)
  have a1: "at s (int k) = Inr (items s ! k)" using km Suc.prems by (simp add: at_nat)
  have a2: "at s (int k + 1) = Inr (items s ! Suc k)"
    using km Suc.prems at_nat [of "Suc k" s] by (simp add: add.commute)
  have ih: "all_adjacent_less s (map int [Suc k ..< m]) =
     Inr (\<forall>i. Suc k \<le> i \<and> i < m \<longrightarrow> items s ! i < items s ! Suc i)"
    using Suc.hyps(1) [of "Suc k"] Suc.hyps(2) Suc.prems by simp
  show ?case
  proof (cases "items s ! k < items s ! Suc k")
    case True
    have "(\<forall>i. k \<le> i \<and> i < m \<longrightarrow> items s ! i < items s ! Suc i) =
          (\<forall>i. Suc k \<le> i \<and> i < m \<longrightarrow> items s ! i < items s ! Suc i)"
      using True by (metis Suc_leI le_neq_implies_less Suc_leD)
    then show ?thesis using True by (simp add: step a1 a2 ih)
  next
    case False
    then have "\<not> (\<forall>i. k \<le> i \<and> i < m \<longrightarrow> items s ! i < items s ! Suc i)"
      using km by auto
    then show ?thesis using False by (simp add: step a1 a2)
  qed
qed

lemma is_unique_and_sorted_eq:
  "is_unique_and_sorted s = Inr (sorted_wrt (<) (items s))"
proof (cases "items s = []")
  case True
  then show ?thesis
    by (simp add: is_unique_and_sorted_def SortedSet_len_def py_range_def)
next
  case False
  define m where "m = length (items s) - 1"
  have m: "m < length (items s)" using False by (simp add: m_def)
  have r: "py_range (int (SortedSet_len s) - 1) = map int [0 ..< m]"
    using False by (simp add: py_range_def SortedSet_len_def m_def nat_diff_distrib' )
  have "sorted_wrt (<) (items s) = (\<forall>i. Suc i < length (items s) \<longrightarrow> items s ! i < items s ! Suc i)"
    by (rule sorted_wrt_iff_nth_Suc_transp) simp
  also have "\<dots> = (\<forall>i. 0 \<le> i \<and> i < m \<longrightarrow> items s ! i < items s ! Suc i)"
    using m by (auto simp: m_def)
  finally show ?thesis
    using all_adjacent_less_upt [OF m, of 0] by (simp add: is_unique_and_sorted_def r)
qed


lemma bisect_left_loop_spec:
  "sorted a \<Longrightarrow> lo \<le> hi \<Longrightarrow> hi \<le> length a \<Longrightarrow>
   (\<forall>i<lo. a ! i < x) \<Longrightarrow> (\<forall>i. hi \<le> i \<and> i < length a \<longrightarrow> x \<le> a ! i) \<Longrightarrow>
   bisect_left_loop a x lo hi \<le> length a \<and>
   (\<forall>i<bisect_left_loop a x lo hi. a ! i < x) \<and>
   (\<forall>i. bisect_left_loop a x lo hi \<le> i \<and> i < length a \<longrightarrow> x \<le> a ! i)"
proof (induction a x lo hi rule: bisect_left_loop.induct)
  case (1 a x lo hi)
  show ?case
  proof (cases "lo < hi")
    case False
    then have "bisect_left_loop a x lo hi = lo"
      by (simp add: bisect_left_loop.simps)
    moreover have "lo = hi" using False "1.prems"(2) by simp
    ultimately show ?thesis using "1.prems" by simp
  next
    case True
    define mid where "mid = (lo + hi) div 2"
    have mid: "lo \<le> mid" "mid < hi" using True by (simp_all add: mid_def)
    show ?thesis
    proof (cases "a ! mid < x")
      case less: True
      have unfold: "bisect_left_loop a x lo hi = bisect_left_loop a x (mid + 1) hi"
        using True less by (subst bisect_left_loop.simps) (simp add: mid_def)
      have below: "\<forall>i<mid + 1. a ! i < x"
      proof (intro allI impI)
        fix i assume "i < mid + 1"
        then have "i \<le> mid" by simp
        moreover have "mid < length a" using mid "1.prems"(3) by simp
        ultimately have "a ! i \<le> a ! mid" using "1.prems"(1) by (simp add: sorted_nth_mono)
        then show "a ! i < x" using less by simp
      qed
      have "bisect_left_loop a x (mid + 1) hi \<le> length a \<and>
            (\<forall>i<bisect_left_loop a x (mid + 1) hi. a ! i < x) \<and>
            (\<forall>i. bisect_left_loop a x (mid + 1) hi \<le> i \<and> i < length a \<longrightarrow> x \<le> a ! i)"
        using "1.IH"(1) [OF True mid_def less "1.prems"(1) _ "1.prems"(3) below "1.prems"(5)] mid
        by simp
      then show ?thesis by (simp add: unfold)
    next
      case geq: False
      have unfold: "bisect_left_loop a x lo hi = bisect_left_loop a x lo mid"
        using True geq by (subst bisect_left_loop.simps) (simp add: mid_def)
      have above: "\<forall>i. mid \<le> i \<and> i < length a \<longrightarrow> x \<le> a ! i"
      proof (intro allI impI)
        fix i assume "mid \<le> i \<and> i < length a"
        then have "a ! mid \<le> a ! i" using "1.prems"(1) by (simp add: sorted_nth_mono)
        then show "x \<le> a ! i" using geq by simp
      qed
      have "mid \<le> length a" using mid "1.prems"(3) by simp
      then have "bisect_left_loop a x lo mid \<le> length a \<and>
            (\<forall>i<bisect_left_loop a x lo mid. a ! i < x) \<and>
            (\<forall>i. bisect_left_loop a x lo mid \<le> i \<and> i < length a \<longrightarrow> x \<le> a ! i)"
        using "1.IH"(2) [OF True mid_def geq "1.prems"(1) mid(1) _ "1.prems"(4) above]
        by simp
      then show ?thesis by (simp add: unfold)
    qed
  qed
qed

lemma bisect_left_spec:
  assumes "sorted a"
  shows "bisect_left a x \<le> length a"
    and "\<forall>i<bisect_left a x. a ! i < x"
    and "\<forall>i. bisect_left a x \<le> i \<and> i < length a \<longrightarrow> x \<le> a ! i"
proof -
  have "\<forall>i. length a \<le> i \<and> i < length a \<longrightarrow> x \<le> a ! i" by auto
  then have all: "bisect_left_loop a x 0 (length a) \<le> length a \<and>
      (\<forall>i<bisect_left_loop a x 0 (length a). a ! i < x) \<and>
      (\<forall>i. bisect_left_loop a x 0 (length a) \<le> i \<and> i < length a \<longrightarrow> x \<le> a ! i)"
    by (intro bisect_left_loop_spec) (use assms in auto)
  show "bisect_left a x \<le> length a"
    using all by (simp add: bisect_left_def)
  show "\<forall>i<bisect_left a x. a ! i < x"
    using all by (simp add: bisect_left_def)
  show "\<forall>i. bisect_left a x \<le> i \<and> i < length a \<longrightarrow> x \<le> a ! i"
    using all by (simp add: bisect_left_def)
qed

lemma bisect_left_found:
  assumes "sorted a" and "x \<in> set a"
  shows "bisect_left a x < length a \<and> a ! bisect_left a x = x"
proof -
  obtain j where j: "j < length a" "a ! j = x"
    using assms(2) by (auto simp: in_set_conv_nth)
  let ?r = "bisect_left a x"
  have "\<not> j < ?r" using bisect_left_spec(2) [OF assms(1), of x] j by auto
  then have rj: "?r \<le> j" by simp
  then have r: "?r < length a" using j by simp
  have "x \<le> a ! ?r" using bisect_left_spec(3) [OF assms(1), of x] r by simp
  moreover have "a ! ?r \<le> a ! j" using assms(1) rj j(1) by (simp add: sorted_nth_mono)
  ultimately show ?thesis using r j(2) by simp
qed

lemma index_sorted:
  assumes "sorted_wrt (<) (items s)"
  shows "index s x =
     (if x \<in> set (items s) then Inr (bisect_left (items s) x) else Inl ValueError)"
proof -
  have srt: "sorted (items s)" using assms by (simp add: strict_sorted_iff)
  have le: "bisect_left (items s) x \<le> length (items s)"
    using bisect_left_spec(1) [OF srt] .
  show ?thesis
  proof (cases "x \<in> set (items s)")
    case True
    then show ?thesis
      using bisect_left_found [OF srt True] assms
      by (simp add: index_def is_unique_and_sorted_eq list_getitem_def)
  next
    case False
    then have "bisect_left (items s) x < length (items s) \<Longrightarrow>
               items s ! bisect_left (items s) x \<noteq> x"
      by (metis nth_mem)
    then have "bisect_left (items s) x \<noteq> length (items s) \<Longrightarrow>
               items s ! bisect_left (items s) x \<noteq> x"
      using le by simp
    then show ?thesis
      using False assms le
      by (simp add: index_def is_unique_and_sorted_eq list_getitem_def Let_def)
  qed
qed

lemma index_unsorted:
  "\<not> sorted_wrt (<) (items s) \<Longrightarrow> index s x = Inl AssertionError"
  by (simp add: index_def is_unique_and_sorted_eq)

lemma contains_sorted:
  "sorted_wrt (<) (items s) \<Longrightarrow> SortedSet_contains s x = Inr (x \<in> set (items s))"
  by (simp add: SortedSet_contains_def index_sorted)

lemma contains_unsorted:
  "\<not> sorted_wrt (<) (items s) \<Longrightarrow> SortedSet_contains s x = Inl AssertionError"
  by (simp add: SortedSet_contains_def index_unsorted)

lemma count_sorted:
  "sorted_wrt (<) (items s) \<Longrightarrow> count s x = Inr (if x \<in> set (items s) then 1 else 0)"
  by (simp add: count_def is_unique_and_sorted_eq contains_sorted)


lemma items_SortedSet_None: "items (SortedSet None) = []"
  by (simp add: SortedSet_def)

lemma set_items_SortedSet: "set (items (SortedSet (Some xs))) = set xs"
  by (simp add: SortedSet_def)

lemma sorted_SortedSet: "sorted_wrt (<) (items (SortedSet src))"
  by (cases src) (simp_all add: SortedSet_def)

lemma all_contained_sorted:
  "sorted_wrt (<) (items c) \<Longrightarrow> all_contained c xs = Inr (set xs \<subseteq> set (items c))"
  by (induction xs) (auto simp: contains_sorted)

lemma py_eq_sorted_sets:
  "py_eq (SortedSetObj s) (SortedSetObj t) = Inr (items s = items t)"
  by (simp add: py_eq_def class_eq_def SortedSet_eq_def)


subsection \<open>The inherited operators on sorted operands\<close>

lemma filter_err_contains:
  "sorted_wrt (<) (items s) \<Longrightarrow>
   filter_err (SortedSet_contains s) xs = Inr (filter (\<lambda>v. v \<in> set (items s)) xs)"
  by (induction xs) (simp_all add: contains_sorted)

lemma filter_err_not_contains:
  "sorted_wrt (<) (items s) \<Longrightarrow>
   filter_err (not_contains s) xs = Inr (filter (\<lambda>v. v \<notin> set (items s)) xs)"
  by (induction xs) (simp_all add: not_contains_def contains_sorted)

lemma Set_and_sorted:
  "sorted_wrt (<) (items s) \<Longrightarrow>
   Set_and s t = Inr (SortedSet (Some (filter (\<lambda>v. v \<in> set (items s)) (items t))))"
  by (simp add: Set_and_def SortedSet_iter_def filter_err_contains)

lemma Set_sub_sorted:
  "sorted_wrt (<) (items t) \<Longrightarrow>
   Set_sub s t = Inr (SortedSet (Some (filter (\<lambda>v. v \<notin> set (items t)) (items s))))"
  by (simp add: Set_sub_def SortedSet_iter_def filter_err_not_contains)

lemma Set_xor_sorted:
  "sorted_wrt (<) (items s) \<Longrightarrow> sorted_wrt (<) (items t) \<Longrightarrow>
   Set_xor s t =
     Inr (Set_or (SortedSet (Some (filter (\<lambda>v. v \<notin> set (items t)) (items s))))
                 (SortedSet (Some (filter (\<lambda>v. v \<notin> set (items s)) (items t)))))"
  by (simp add: Set_xor_def Set_sub_sorted)

lemma Set_and_result: "Set_and s t = Inr r \<Longrightarrow> \<exists>vs. r = SortedSet (Some vs)"
  by (auto simp: Set_and_def split: sum.splits)

lemma Set_sub_result: "Set_sub s t = Inr r \<Longrightarrow> \<exists>vs. r = SortedSet (Some vs)"
  by (auto simp: Set_sub_def split: sum.splits)

lemma Set_xor_result: "Set_xor s t = Inr r \<Longrightarrow> \<exists>vs. r = SortedSet (Some vs)"
  by (auto simp: Set_xor_def Set_or_def split: sum.splits)

lemma SortedSet_add_result: "SortedSet_add s rhs = Inr r \<Longrightarrow> \<exists>vs. r = SortedSet (Some vs)"
  by (auto simp: SortedSet_add_def split: sum.splits)

lemma reachable_sorted: "reachable s \<Longrightarrow> sorted_wrt (<) (items s)"
proof (induction rule: reachable.induct)
  case (by_init src)
  show ?case by (rule sorted_SortedSet)
next
  case (by_add s rhs r)
  then show ?case using SortedSet_add_result sorted_SortedSet by blast
next
  case (by_mul s n)
  then show ?case by (simp add: SortedSet_mul_def sorted_SortedSet)
next
  case (by_rmul s n)
  then show ?case by (simp add: SortedSet_rmul_def SortedSet_mul_def sorted_SortedSet)
next
  case (by_and s t r)
  then show ?case using Set_and_result sorted_SortedSet by blast
next
  case (by_or s t)
  show ?case by (simp add: Set_or_def sorted_SortedSet)
next
  case (by_sub s t r)
  then show ?case using Set_sub_result sorted_SortedSet by blast
next
  case (by_xor s t r)
  then show ?case using Set_xor_result sorted_SortedSet by blast
next
  case (by_intersection s it r)
  then show ?case using Set_and_result sorted_SortedSet unfolding intersection_def by blast
next
  case (by_union s it)
  show ?case by (simp add: union_set_def Set_or_def sorted_SortedSet)
next
  case (by_symmetric_difference s it r)
  then show ?case
    using Set_xor_result sorted_SortedSet unfolding symmetric_difference_def by blast
next
  case (by_difference s it r)
  then show ?case using Set_sub_result sorted_SortedSet unfolding difference_def by blast
qed


section \<open>The stored sequence is strictly ascending\<close>

text \<open>
  Claim C1. Every SortedSet reachable through the interface (built by the constructor from
  any finite iterable or from no argument, or returned by an operation) passes the source's
  own test \<open>is_unique_and_sorted\<close>: its stored sequence is strictly ascending,
  \<open>items[i] < items[i+1]\<close> for every valid \<open>i\<close>, and so holds no duplicate.
\<close>

theorem C1_items_strictly_ascending:
  "reachable s \<Longrightarrow>
     is_unique_and_sorted s = Inr True \<and>
     (\<forall>i. i + 1 < length (items s) \<longrightarrow> items s ! i < items s ! (i + 1)) \<and>
     distinct (items s)"
proof -
  assume "reachable s"
  then have srt: "sorted_wrt (<) (items s)" by (rule reachable_sorted)
  have "\<forall>i. i + 1 < length (items s) \<longrightarrow> items s ! i < items s ! (i + 1)"
    using srt by (simp add: sorted_wrt_iff_nth_less)
  moreover have "distinct (items s)" using srt by (simp add: strict_sorted_iff)
  ultimately show ?thesis using srt by (simp add: is_unique_and_sorted_eq)
qed

theorem C1_items_strictly_ascending_witness:
  "reachable (SortedSet (Some [7, 8, 3, 14, 8, 21, 35 :: int])) \<and>
   items (SortedSet (Some [7, 8, 3, 14, 8, 21, 35 :: int])) = [3, 7, 8, 14, 21, 35] \<and>
   is_unique_and_sorted (SortedSet (Some [7, 8, 3, 14, 8, 21, 35 :: int])) = Inr True \<and>
   distinct (items (SortedSet (Some [7, 8, 3, 14, 8, 21, 35 :: int])))"
proof -
  have r: "reachable (SortedSet (Some [7, 8, 3, 14, 8, 21, 35 :: int]))"
    by (rule reachable.by_init)
  have i: "items (SortedSet (Some [7, 8, 3, 14, 8, 21, 35 :: int])) = [3, 7, 8, 14, 21, 35]"
    by code_simp
  show ?thesis using r i C1_items_strictly_ascending [OF r] by simp
qed


section \<open>Search, membership and count\<close>

text \<open>
  Claim C4. On every reachable SortedSet, \<open>index\<close> returns the position of a stored item
  (the element at that position is the item) and raises ValueError exactly when the item is
  absent; \<open>__contains__\<close> returns whether the item is stored and \<open>count\<close> returns 1 or 0
  accordingly, and neither lets the ValueError through.
\<close>

theorem C4_index_contains_count:
  "reachable s \<Longrightarrow>
     (x \<in> set (items s) \<longrightarrow>
        (\<exists>i. index s x = Inr i \<and> i < length (items s) \<and> items s ! i = x
             \<and> at s (int i) = Inr x)) \<and>
     ((index s x = Inl ValueError) = (x \<notin> set (items s))) \<and>
     SortedSet_contains s x = Inr (x \<in> set (items s)) \<and>
     SortedSet_contains s x \<noteq> Inl ValueError \<and>
     count s x = Inr (if x \<in> set (items s) then 1 else 0) \<and>
     count s x \<noteq> Inl ValueError"
proof -
  assume "reachable s"
  then have srt: "sorted_wrt (<) (items s)" by (rule reachable_sorted)
  then have s': "sorted (items s)" by (simp add: strict_sorted_iff)
  have a: "x \<in> set (items s) \<longrightarrow>
        (\<exists>i. index s x = Inr i \<and> i < length (items s) \<and> items s ! i = x
             \<and> at s (int i) = Inr x)"
    using bisect_left_found [OF s'] by (auto simp: index_sorted [OF srt] at_nat)
  have b: "(index s x = Inl ValueError) = (x \<notin> set (items s))"
    by (simp add: index_sorted [OF srt])
  show ?thesis using a b by (simp add: contains_sorted [OF srt] count_sorted [OF srt])
qed

theorem C4_index_contains_count_witness:
  "reachable (SortedSet (Some [1, 5, 8, 9 :: int])) \<and>
   index (SortedSet (Some [1, 5, 8, 9 :: int])) 15 = Inl ValueError \<and>
   SortedSet_contains (SortedSet (Some [1, 5, 8, 9 :: int])) 8 = Inr True \<and>
   SortedSet_contains (SortedSet (Some [1, 5, 8, 9 :: int])) 15 = Inr False \<and>
   count (SortedSet (Some [1, 5, 8, 9 :: int])) 8 = Inr 1 \<and>
   count (SortedSet (Some [1, 5, 8, 9 :: int])) 15 = Inr 0"
proof -
  have r: "reachable (SortedSet (Some [1, 5, 8, 9 :: int]))"
    by (rule reachable.by_init)
  show ?thesis
    using r C4_index_contains_count [OF r, of 8] C4_index_contains_count [OF r, of 15]
    by (simp add: set_items_SortedSet)
qed

section \<open>Concatenation\<close>

text \<open>
  Claim C2, as the code has it. \<^verbatim>\<open>__add__\<close> reads \<^verbatim>\<open>rhs._items\<close>, so the right operand has to be
  a SortedSet: a plain list on the right raises AttributeError.
\<close>

theorem C2_add_needs_items_counterexample:
  "SortedSet_add (SortedSet (Some [1, 2, 3 :: int])) (ListObj [3, 4, 5]) = Inl AttributeError"
  by (simp add: SortedSet_add_def getattr_items_def)

text \<open>
  Claim C2, amended. For every SortedSet \<open>s\<close> and every SortedSet \<open>t\<close>, \<open>s + t\<close> succeeds and
  returns a SortedSet whose elements are exactly those of \<open>s\<close> or of \<open>t\<close>; with a plain list on
  the right it raises AttributeError. The operands are only read: the result is a new object
  built by the constructor.
\<close>

theorem C2_add_of_sorted_sets:
  "(\<exists>r. SortedSet_add s (SortedSetObj t) = Inr r \<and>
        set (items r) = set (items s) \<union> set (items t) \<and>
        (\<forall>x. SortedSet_contains r x = Inr (x \<in> set (items s) \<or> x \<in> set (items t)))) \<and>
   SortedSet_add s (ListObj xs) = Inl AttributeError"
proof -
  let ?r = "SortedSet (Some (items s @ items t))"
  have "SortedSet_add s (SortedSetObj t) = Inr ?r"
    by (simp add: SortedSet_add_def getattr_items_def)
  moreover have "set (items ?r) = set (items s) \<union> set (items t)"
    by (simp add: set_items_SortedSet)
  moreover have "\<forall>x. SortedSet_contains ?r x = Inr (x \<in> set (items s) \<or> x \<in> set (items t))"
    by (simp add: contains_sorted [OF sorted_SortedSet] set_items_SortedSet)
  moreover have "SortedSet_add s (ListObj xs) = Inl AttributeError"
    by (simp add: SortedSet_add_def getattr_items_def)
  ultimately show ?thesis by blast
qed

theorem C2_add_of_sorted_sets_witness:
  "SortedSet_add (SortedSet (Some [1, 2, 3 :: int])) (SortedSetObj (SortedSet (Some [3, 4, 5])))
     = Inr (SortedSet (Some [1, 2, 3, 4, 5])) \<and>
   (\<exists>r. SortedSet_add (SortedSet (Some [1, 2, 3 :: int])) (SortedSetObj (SortedSet (Some [3, 4, 5])))
           = Inr r \<and> set (items r) = {1, 2, 3, 4, 5})"
proof -
  have e: "SortedSet_add (SortedSet (Some [1, 2, 3 :: int])) (SortedSetObj (SortedSet (Some [3, 4, 5])))
     = Inr (SortedSet (Some [1, 2, 3, 4, 5]))"
    by code_simp
  show ?thesis
    using e C2_add_of_sorted_sets [of "SortedSet (Some [1, 2, 3 :: int])" "SortedSet (Some [3, 4, 5])" "[]"]
    by (auto simp: set_items_SortedSet)
qed

text \<open>
  Claim C10. Concatenation of two SortedSets commutes: \<open>s + t\<close> and \<open>t + s\<close> both succeed,
  compare equal under \<^verbatim>\<open>==\<close>, and hold the elements of either operand.
\<close>

theorem C10_add_commutes:
  "\<exists>r r'. SortedSet_add s (SortedSetObj t) = Inr r \<and>
       SortedSet_add t (SortedSetObj s) = Inr r' \<and>
       py_eq (SortedSetObj r) (SortedSetObj r') = Inr True \<and>
       items r = items r' \<and>
       set (items r) = set (items s) \<union> set (items t)"
proof -
  have "set (items s @ items t) = set (items t @ items s)" by auto
  then have "SortedSet (Some (items s @ items t)) = SortedSet (Some (items t @ items s))"
    by (simp add: SortedSet_def)
  then show ?thesis
    by (simp add: SortedSet_add_def getattr_items_def py_eq_def class_eq_def SortedSet_eq_def
        set_items_SortedSet Un_commute)
qed

theorem C10_add_commutes_witness:
  "SortedSet_add (SortedSet (Some [1, 2, 3 :: int])) (SortedSetObj (SortedSet (Some [3, 4, 5])))
     = SortedSet_add (SortedSet (Some [3, 4, 5])) (SortedSetObj (SortedSet (Some [1, 2, 3])))"
  using C10_add_commutes [of "SortedSet (Some [1, 2, 3 :: int])" "SortedSet (Some [3, 4, 5])"]
  by auto

section \<open>Equality\<close>






section \<open>Positional access\<close>

text \<open>
  Claim C5. With \<open>n\<close> the length, \<open>s[i]\<close> is the element at position \<open>i\<close> when \<open>0 \<le> i < n\<close>, the
  element at position \<open>n + i\<close> when \<open>-n \<le> i < 0\<close> (so \<open>s[-1]\<close> is the last element), and raises
  IndexError exactly when \<open>i \<ge> n\<close> or \<open>i < -n\<close>; no other error occurs and no index is clamped.
\<close>

theorem C5_positional_access:
  "(0 \<le> i \<and> i < int (length (items s)) \<longrightarrow>
      SortedSet_getitem s (Index i) = Inr (Element (items s ! nat i))) \<and>
   (- int (length (items s)) \<le> i \<and> i < 0 \<longrightarrow>
      SortedSet_getitem s (Index i) = Inr (Element (items s ! nat (int (length (items s)) + i)))) \<and>
   (items s \<noteq> [] \<longrightarrow> SortedSet_getitem s (Index (- 1)) = Inr (Element (last (items s)))) \<and>
   ((SortedSet_getitem s (Index i) = Inl IndexError) =
      (i \<ge> int (length (items s)) \<or> i < - int (length (items s)))) \<and>
   ((\<exists>e. SortedSet_getitem s (Index i) = Inl e) =
      (SortedSet_getitem s (Index i) = Inl IndexError))"
proof -
  have l: "items s \<noteq> [] \<longrightarrow> SortedSet_getitem s (Index (- 1)) = Inr (Element (last (items s)))"
    by (auto simp: SortedSet_getitem_def at_def list_getitem_def Let_def last_conv_nth
        nat_diff_distrib')
  have rest: "(0 \<le> i \<and> i < int (length (items s)) \<longrightarrow>
      SortedSet_getitem s (Index i) = Inr (Element (items s ! nat i))) \<and>
   (- int (length (items s)) \<le> i \<and> i < 0 \<longrightarrow>
      SortedSet_getitem s (Index i) = Inr (Element (items s ! nat (int (length (items s)) + i)))) \<and>
   ((SortedSet_getitem s (Index i) = Inl IndexError) =
      (i \<ge> int (length (items s)) \<or> i < - int (length (items s)))) \<and>
   ((\<exists>e. SortedSet_getitem s (Index i) = Inl e) =
      (SortedSet_getitem s (Index i) = Inl IndexError))"
    by (auto simp: SortedSet_getitem_def at_def list_getitem_def Let_def add.commute)
  show ?thesis using l rest by blast
qed

theorem C5_positional_access_witness:
  "SortedSet_getitem (SortedSet (Some [1, 4, 9, 13, 15 :: int])) (Index 4) = Inr (Element 15) \<and>
   SortedSet_getitem (SortedSet (Some [1, 4, 9, 13, 15 :: int])) (Index (- 1)) = Inr (Element 15) \<and>
   SortedSet_getitem (SortedSet (Some [1, 4, 9, 13, 15 :: int])) (Index (- 5)) = Inr (Element 1) \<and>
   SortedSet_getitem (SortedSet (Some [1, 4, 9, 13, 15 :: int])) (Index 5) = Inl IndexError \<and>
   SortedSet_getitem (SortedSet (Some [1, 4, 9, 13, 15 :: int])) (Index (- 6)) = Inl IndexError"
proof -
  have i: "items (SortedSet (Some [1, 4, 9, 13, 15 :: int])) = [1, 4, 9, 13, 15]"
    by code_simp
  show ?thesis
    using C5_positional_access [of 4 "SortedSet (Some [1, 4, 9, 13, 15 :: int])"]
      C5_positional_access [of "- 1" "SortedSet (Some [1, 4, 9, 13, 15 :: int])"]
      C5_positional_access [of "- 5" "SortedSet (Some [1, 4, 9, 13, 15 :: int])"]
      C5_positional_access [of 5 "SortedSet (Some [1, 4, 9, 13, 15 :: int])"]
      C5_positional_access [of "- 6" "SortedSet (Some [1, 4, 9, 13, 15 :: int])"]
    by (simp add: i)
qed

section \<open>Repetition\<close>

text \<open>
  Claim C6. \<open>s * n\<close> is \<open>s\<close> itself for \<open>n > 0\<close> and the empty SortedSet for \<open>n \<le> 0\<close>, and
  \<open>n * s\<close> (the reflected method) gives the same result as \<open>s * n\<close> for every integer \<open>n\<close>.
\<close>

theorem C6_repetition:
  "(n > 0 \<longrightarrow> SortedSet_mul s n = s \<and>
              py_eq (SortedSetObj (SortedSet_mul s n)) (SortedSetObj s) = Inr True) \<and>
   (n \<le> 0 \<longrightarrow> SortedSet_mul s n = SortedSet None \<and> items (SortedSet_mul s n) = [] \<and>
              py_eq (SortedSetObj (SortedSet_mul s n)) (SortedSetObj (SortedSet None)) = Inr True) \<and>
   SortedSet_rmul s n = SortedSet_mul s n \<and>
   py_eq (SortedSetObj (SortedSet_rmul s n)) (SortedSetObj (SortedSet_mul s n)) = Inr True"
  by (simp add: SortedSet_mul_def SortedSet_rmul_def SortedSet_def py_eq_def class_eq_def
      SortedSet_eq_def)

theorem C6_repetition_witness:
  "SortedSet_mul (SortedSet (Some [4, 5, 6 :: int])) 100 = SortedSet (Some [4, 5, 6]) \<and>
   SortedSet_mul (SortedSet (Some [4, 5, 6 :: int])) 0 = SortedSet None \<and>
   SortedSet_rmul (SortedSet (Some [4, 5, 6 :: int])) (- 3) = SortedSet None"
  using C6_repetition [of 100 "SortedSet (Some [4, 5, 6 :: int])"]
    C6_repetition [of 0 "SortedSet (Some [4, 5, 6 :: int])"]
    C6_repetition [of "- 3" "SortedSet (Some [4, 5, 6 :: int])"]
  by simp

section \<open>Set algebra\<close>

lemma set_items_and:
  "set (items (SortedSet (Some (filter (\<lambda>v. v \<in> A) (items (SortedSet (Some xs))))))) = A \<inter> set xs"
  by (auto simp: set_items_SortedSet)

lemma intersection_sorted:
  assumes "sorted_wrt (<) (items s)"
  shows "\<exists>r. intersection s other = Inr r \<and> sorted_wrt (<) (items r) \<and>
             set (items r) = set (items s) \<inter> set other"
  unfolding intersection_def Set_and_sorted [OF assms]
  by (simp add: sorted_SortedSet set_items_and)

lemma union_sorted:
  "sorted_wrt (<) (items (union_set s other)) \<and>
   set (items (union_set s other)) = set (items s) \<union> set other"
  by (simp add: union_set_def Set_or_def SortedSet_iter_def sorted_SortedSet set_items_SortedSet)

lemma difference_sorted:
  "\<exists>r. difference s other = Inr r \<and> sorted_wrt (<) (items r) \<and>
       set (items r) = set (items s) - set other"
  unfolding difference_def Set_sub_sorted [OF sorted_SortedSet]
  by (auto simp: sorted_SortedSet set_items_SortedSet)

lemma symmetric_difference_sorted:
  assumes "sorted_wrt (<) (items s)"
  shows "\<exists>r. symmetric_difference s other = Inr r \<and> sorted_wrt (<) (items r) \<and>
             set (items r) = (set (items s) - set other) \<union> (set other - set (items s))"
  unfolding symmetric_difference_def Set_xor_sorted [OF assms sorted_SortedSet]
  by (auto simp: Set_or_def SortedSet_iter_def sorted_SortedSet set_items_SortedSet)

lemma isdisjoint_sorted:
  "sorted_wrt (<) (items s) \<Longrightarrow>
   isdisjoint s other = Inr (set (items s) \<inter> set other = {})"
  by (induction other) (auto simp: contains_sorted)

text \<open>
  Claim C7. For a reachable SortedSet \<open>s\<close>, any finite iterable \<open>other\<close> and any \<open>x\<close>: \<open>x\<close> is
  in \<open>s.union(other)\<close> iff it is in \<open>s\<close> or in \<open>other\<close>; in \<open>s.intersection(other)\<close> iff it is in
  both; in \<open>s.difference(other)\<close> iff it is in \<open>s\<close> and not in \<open>other\<close>; in
  \<open>s.symmetric_difference(other)\<close> iff it is in exactly one of the two; and
  \<open>s.isdisjoint(other)\<close> is true iff the intersection is empty. Membership in a SortedSet
  is the answer of \<^verbatim>\<open>__contains__\<close>; every operation returns without raising.
\<close>

theorem C7_set_algebra:
  "reachable s \<Longrightarrow>
     SortedSet_contains (union_set s other) x =
       Inr (SortedSet_contains s x = Inr True \<or> x \<in> set other) \<and>
     (\<exists>r. intersection s other = Inr r \<and>
          SortedSet_contains r x = Inr (SortedSet_contains s x = Inr True \<and> x \<in> set other) \<and>
          isdisjoint s other = Inr (items r = [])) \<and>
     (\<exists>r. difference s other = Inr r \<and>
          SortedSet_contains r x = Inr (SortedSet_contains s x = Inr True \<and> x \<notin> set other)) \<and>
     (\<exists>r. symmetric_difference s other = Inr r \<and>
          SortedSet_contains r x =
            Inr ((SortedSet_contains s x = Inr True \<and> x \<notin> set other) \<or>
                 (SortedSet_contains s x \<noteq> Inr True \<and> x \<in> set other)))"
proof -
  assume "reachable s"
  then have srt: "sorted_wrt (<) (items s)" by (rule reachable_sorted)
  have mem: "(SortedSet_contains s x = Inr True) = (x \<in> set (items s))"
    by (simp add: contains_sorted [OF srt])
  have u: "SortedSet_contains (union_set s other) x =
       Inr (SortedSet_contains s x = Inr True \<or> x \<in> set other)"
    using union_sorted [of s other] by (simp add: contains_sorted mem)
  obtain r where r: "intersection s other = Inr r" "sorted_wrt (<) (items r)"
      "set (items r) = set (items s) \<inter> set other"
    using intersection_sorted [OF srt] by blast
  have "isdisjoint s other = Inr (items r = [])"
    using r(3) by (simp add: isdisjoint_sorted [OF srt] flip: set_empty)
  then have i: "\<exists>r. intersection s other = Inr r \<and>
          SortedSet_contains r x = Inr (SortedSet_contains s x = Inr True \<and> x \<in> set other) \<and>
          isdisjoint s other = Inr (items r = [])"
    using r by (simp add: contains_sorted mem)
  obtain d where d: "difference s other = Inr d" "sorted_wrt (<) (items d)"
      "set (items d) = set (items s) - set other"
    using difference_sorted by blast
  have d': "\<exists>r. difference s other = Inr r \<and>
          SortedSet_contains r x = Inr (SortedSet_contains s x = Inr True \<and> x \<notin> set other)"
    using d by (simp add: contains_sorted mem)
  obtain y where y: "symmetric_difference s other = Inr y" "sorted_wrt (<) (items y)"
      "set (items y) = (set (items s) - set other) \<union> (set other - set (items s))"
    using symmetric_difference_sorted [OF srt] by blast
  have y': "\<exists>r. symmetric_difference s other = Inr r \<and>
          SortedSet_contains r x =
            Inr ((SortedSet_contains s x = Inr True \<and> x \<notin> set other) \<or>
                 (SortedSet_contains s x \<noteq> Inr True \<and> x \<in> set other))"
    using y by (auto simp: contains_sorted mem)
  show ?thesis using u i d' y' by blast
qed

theorem C7_set_algebra_witness:
  "reachable (SortedSet (Some [1, 2, 3 :: int])) \<and>
   SortedSet_contains (union_set (SortedSet (Some [1, 2, 3 :: int])) [2, 3, 4]) 4 = Inr True \<and>
   (\<exists>r. intersection (SortedSet (Some [1, 2, 3 :: int])) [2, 3, 4] = Inr r \<and>
        SortedSet_contains r 4 = Inr False \<and>
        isdisjoint (SortedSet (Some [1, 2, 3 :: int])) [2, 3, 4] = Inr (items r = [])) \<and>
   (\<exists>r. difference (SortedSet (Some [1, 2, 3 :: int])) [2, 3, 4] = Inr r \<and>
        SortedSet_contains r 4 = Inr False) \<and>
   (\<exists>r. symmetric_difference (SortedSet (Some [1, 2, 3 :: int])) [2, 3, 4] = Inr r \<and>
        SortedSet_contains r 4 = Inr True)"
proof -
  have r: "reachable (SortedSet (Some [1, 2, 3 :: int]))"
    by (rule reachable.by_init)
  have c: "SortedSet_contains (SortedSet (Some [1, 2, 3 :: int])) 4 = Inr False"
    by (simp add: contains_sorted [OF sorted_SortedSet] set_items_SortedSet)
  show ?thesis
    using r C7_set_algebra [OF r, of "[2, 3, 4]" 4] by (simp add: c)
qed

section \<open>Subset and superset\<close>

lemma strict_sorted_card:
  "sorted_wrt (<) (xs :: 'a::linorder list) \<Longrightarrow> card (set xs) = length xs"
  by (simp add: strict_sorted_iff distinct_card)

lemma Set_le_sorted:
  assumes "sorted_wrt (<) (items s)" and "sorted_wrt (<) (items t)"
  shows "Set_le s t = Inr (set (items s) \<subseteq> set (items t))"
proof (cases "length (items s) > length (items t)")
  case True
  have "\<not> set (items s) \<subseteq> set (items t)"
  proof
    assume "set (items s) \<subseteq> set (items t)"
    then have "card (set (items s)) \<le> card (set (items t))" by (simp add: card_mono)
    then show False using True assms by (simp add: strict_sorted_card)
  qed
  then show ?thesis using True by (simp add: Set_le_def SortedSet_len_def)
next
  case False
  then show ?thesis
    by (simp add: Set_le_def SortedSet_len_def SortedSet_iter_def all_contained_sorted [OF assms(2)])
qed

lemma Set_ge_sorted:
  assumes "sorted_wrt (<) (items s)" and "sorted_wrt (<) (items t)"
  shows "Set_ge s t = Inr (set (items t) \<subseteq> set (items s))"
proof (cases "length (items s) < length (items t)")
  case True
  have "\<not> set (items t) \<subseteq> set (items s)"
  proof
    assume "set (items t) \<subseteq> set (items s)"
    then have "card (set (items t)) \<le> card (set (items s))" by (simp add: card_mono)
    then show False using True assms by (simp add: strict_sorted_card)
  qed
  then show ?thesis using True by (simp add: Set_ge_def SortedSet_len_def)
next
  case False
  then show ?thesis
    by (simp add: Set_ge_def SortedSet_len_def SortedSet_iter_def all_contained_sorted [OF assms(1)])
qed

lemma strict_sorted_items_eq:
  assumes "sorted_wrt (<) (xs :: 'a::linorder list)" and "sorted_wrt (<) ys"
  shows "(xs = ys) = (set xs = set ys)"
  using assms sorted_distinct_set_unique [of xs ys] by (auto simp: strict_sorted_iff)

lemma Set_lt_sorted:
  assumes "sorted_wrt (<) (items s)" and "sorted_wrt (<) (items t)"
  shows "Set_lt s t = Inr (set (items s) \<subseteq> set (items t) \<and> items s \<noteq> items t)"
proof (cases "length (items s) < length (items t)")
  case True
  then have "items s \<noteq> items t" by auto
  then show ?thesis using True by (simp add: Set_lt_def SortedSet_len_def Set_le_sorted [OF assms])
next
  case False
  have "\<not> (set (items s) \<subseteq> set (items t) \<and> items s \<noteq> items t)"
  proof
    assume a: "set (items s) \<subseteq> set (items t) \<and> items s \<noteq> items t"
    then have "set (items s) \<subset> set (items t)"
      using strict_sorted_items_eq [OF assms] by blast
    then have "card (set (items s)) < card (set (items t))"
      by (simp add: psubset_card_mono)
    then show False using False assms by (simp add: strict_sorted_card)
  qed
  then show ?thesis using False by (simp add: Set_lt_def SortedSet_len_def)
qed

lemma Set_gt_sorted:
  assumes "sorted_wrt (<) (items s)" and "sorted_wrt (<) (items t)"
  shows "Set_gt s t = Inr (set (items t) \<subseteq> set (items s) \<and> items s \<noteq> items t)"
proof (cases "length (items s) > length (items t)")
  case True
  then have "items s \<noteq> items t" by auto
  then show ?thesis using True by (simp add: Set_gt_def SortedSet_len_def Set_ge_sorted [OF assms])
next
  case False
  have "\<not> (set (items t) \<subseteq> set (items s) \<and> items s \<noteq> items t)"
  proof
    assume a: "set (items t) \<subseteq> set (items s) \<and> items s \<noteq> items t"
    then have "set (items t) \<subset> set (items s)"
      using strict_sorted_items_eq [OF assms] by blast
    then have "card (set (items t)) < card (set (items s))"
      by (simp add: psubset_card_mono)
    then show False using False assms by (simp add: strict_sorted_card)
  qed
  then show ?thesis using False by (simp add: Set_gt_def SortedSet_len_def)
qed

text \<open>
  Claim C8. For a reachable SortedSet \<open>s\<close> and any finite iterable \<open>other\<close>, \<open>s.issubset(other)\<close>
  is true iff every element of \<open>s\<close> is in \<open>other\<close>, and \<open>s.issuperset(other)\<close> iff every element of
  \<open>other\<close> is in \<open>s\<close>; both hold between a set and itself. For reachable \<open>s\<close> and \<open>t\<close>, \<open>s < t\<close>
  holds iff \<open>s <= t\<close> holds and \<open>s == t\<close> does not, and \<open>s > t\<close> iff \<open>s >= t\<close> holds and \<open>s == t\<close>
  does not; \<open>s <= t\<close> and \<open>s >= t\<close> are the two methods applied to the elements of \<open>t\<close>.
\<close>

theorem C8_subset_superset:
  "reachable s \<Longrightarrow> reachable t \<Longrightarrow>
     issubset s other = Inr (\<forall>x. SortedSet_contains s x = Inr True \<longrightarrow> x \<in> set other) \<and>
     issuperset s other = Inr (\<forall>x \<in> set other. SortedSet_contains s x = Inr True) \<and>
     issubset s (SortedSet_iter s) = Inr True \<and>
     issuperset s (SortedSet_iter s) = Inr True \<and>
     Set_lt s t =
       Inr (Set_le s t = Inr True \<and> py_eq (SortedSetObj s) (SortedSetObj t) = Inr False) \<and>
     Set_gt s t =
       Inr (Set_ge s t = Inr True \<and> py_eq (SortedSetObj s) (SortedSetObj t) = Inr False) \<and>
     Set_le s t = issubset s (SortedSet_iter t) \<and>
     Set_ge s t = issuperset s (SortedSet_iter t)"
proof -
  assume "reachable s" and "reachable t"
  then have srt: "sorted_wrt (<) (items s)" and trt: "sorted_wrt (<) (items t)"
    by (simp_all add: reachable_sorted)
  have mem: "\<And>x. (SortedSet_contains s x = Inr True) = (x \<in> set (items s))"
    by (simp add: contains_sorted [OF srt])
  have sub: "\<And>ys. issubset s ys = Inr (set (items s) \<subseteq> set ys)"
    by (simp add: issubset_def Set_le_sorted [OF srt sorted_SortedSet] set_items_SortedSet)
  have sup: "\<And>ys. issuperset s ys = Inr (set ys \<subseteq> set (items s))"
    by (simp add: issuperset_def Set_ge_sorted [OF srt sorted_SortedSet] set_items_SortedSet)
  have eq: "py_eq (SortedSetObj s) (SortedSetObj t) = Inr (items s = items t)"
    by (rule py_eq_sorted_sets)
  have 1: "issubset s other = Inr (\<forall>x. SortedSet_contains s x = Inr True \<longrightarrow> x \<in> set other)"
    by (simp add: sub mem subset_iff)
  have 2: "issuperset s other = Inr (\<forall>x \<in> set other. SortedSet_contains s x = Inr True)"
    by (auto simp: sup mem)
  have 3: "issubset s (SortedSet_iter s) = Inr True" "issuperset s (SortedSet_iter s) = Inr True"
    by (simp_all add: sub sup SortedSet_iter_def)
  have 4: "Set_lt s t =
       Inr (Set_le s t = Inr True \<and> py_eq (SortedSetObj s) (SortedSetObj t) = Inr False)"
    by (simp add: Set_lt_sorted [OF srt trt] Set_le_sorted [OF srt trt] eq)
  have 5: "Set_gt s t =
       Inr (Set_ge s t = Inr True \<and> py_eq (SortedSetObj s) (SortedSetObj t) = Inr False)"
    by (simp add: Set_gt_sorted [OF srt trt] Set_ge_sorted [OF srt trt] eq)
  have 6: "Set_le s t = issubset s (SortedSet_iter t)" "Set_ge s t = issuperset s (SortedSet_iter t)"
    by (simp_all add: sub sup SortedSet_iter_def Set_le_sorted [OF srt trt] Set_ge_sorted [OF srt trt])
  show ?thesis using 1 2 3 4 5 6 by blast
qed

theorem C8_subset_superset_witness:
  "reachable (SortedSet (Some [1, 2 :: int])) \<and> reachable (SortedSet (Some [1, 2, 3 :: int])) \<and>
   issubset (SortedSet (Some [1, 2 :: int])) [1, 2, 3] = Inr True \<and>
   issuperset (SortedSet (Some [1, 2 :: int])) [1, 2, 3] = Inr False \<and>
   Set_lt (SortedSet (Some [1, 2 :: int])) (SortedSet (Some [1, 2, 3])) = Inr True \<and>
   Set_gt (SortedSet (Some [1, 2 :: int])) (SortedSet (Some [1, 2, 3])) = Inr False"
proof -
  have r: "reachable (SortedSet (Some [1, 2 :: int]))"
    and t: "reachable (SortedSet (Some [1, 2, 3 :: int]))"
    by (rule reachable.by_init)+
  have c: "\<And>x. SortedSet_contains (SortedSet (Some [1, 2 :: int])) x = Inr (x = 1 \<or> x = 2)"
    by (simp add: contains_sorted [OF sorted_SortedSet] set_items_SortedSet)
  have e: "Set_le (SortedSet (Some [1, 2 :: int])) (SortedSet (Some [1, 2, 3])) = Inr True"
    "Set_ge (SortedSet (Some [1, 2 :: int])) (SortedSet (Some [1, 2, 3])) = Inr False"
    "py_eq (SortedSetObj (SortedSet (Some [1, 2 :: int]))) (SortedSetObj (SortedSet (Some [1, 2, 3])))
       = Inr False"
    by code_simp+
  show ?thesis
    using r t C8_subset_superset [OF r t, of "[1, 2, 3]"] by (simp add: c e)
qed

section \<open>Slicing\<close>

lemma map_nth_shift:
  "map (\<lambda>k. xs ! nat (int l + int k * 1)) [0 ..< h - l] = map ((!) xs) [l ..< h]"
proof -
  have "[l ..< h] = map (\<lambda>k. k + l) [0 ..< h - l]"
    by (cases "l \<le> h") (simp_all add: map_add_upt)
  then have "map ((!) xs) [l ..< h] = map (\<lambda>k. xs ! (k + l)) [0 ..< h - l]"
    by (simp add: comp_def)
  moreover have "\<And>k. nat (int l + int k * 1) = k + l" by simp
  ultimately show ?thesis by simp
qed

lemma map_nth_drop_take:
  "map ((!) xs) [min l (length xs) ..< min h (length xs)] = drop l (take h xs)"
proof (rule nth_equalityI)
  show "length (map ((!) xs) [min l (length xs) ..< min h (length xs)]) =
        length (drop l (take h xs))"
    by (simp add: min_def)
next
  fix i
  assume "i < length (map ((!) xs) [min l (length xs) ..< min h (length xs)])"
  then have d: "i < min h (length xs) - min l (length xs)" by simp
  have l: "l \<le> length xs" using d by arith
  have li: "l + i < h" using d by arith
  have lx: "l + i < length xs" using d by arith
  have "drop l (take h xs) ! i = take h xs ! (l + i)"
    using l li lx by simp
  also have "\<dots> = xs ! (l + i)" using li by simp
  finally show "map ((!) xs) [min l (length xs) ..< min h (length xs)] ! i =
                drop l (take h xs) ! i"
    using d l li lx by (simp add: min_def)
qed

lemma list_getslice_unit_step:
  assumes "stepo = None \<or> stepo = Some 1"
    and "lo = (case starto of None \<Rightarrow> 0
               | Some a \<Rightarrow> if a < 0 then max (a + int (length xs)) 0 else min a (int (length xs)))"
    and "hi = (case stopo of None \<Rightarrow> int (length xs)
               | Some b \<Rightarrow> if b < 0 then max (b + int (length xs)) 0 else min b (int (length xs)))"
  shows "list_getslice xs starto stopo stepo = Inr (map ((!) xs) [nat lo ..< nat hi])"
proof -
  have ind: "slice_indices (int (length xs)) starto stopo stepo = Inr (lo, hi, 1)"
    using assms by (auto simp: slice_indices_def Let_def split: option.splits)
  have lo0: "0 \<le> lo" using assms(2) by (auto split: option.splits)
  have hi0: "0 \<le> hi" using assms(3) by (auto split: option.splits)
  have len: "nat (slice_length lo hi 1) = nat hi - nat lo"
    using lo0 hi0 by (auto simp: slice_length_def)
  have "map (\<lambda>k. xs ! nat (lo + int k * 1)) [0 ..< nat hi - nat lo] = map ((!) xs) [nat lo ..< nat hi]"
    using map_nth_shift [of xs "nat lo" "nat hi"] lo0 by simp
  then show ?thesis by (simp add: list_getslice_def ind len)
qed

text \<open>
  Claim C9. A slice \<open>s[start:stop]\<close> (step absent or 1, as the spec's \<open>slice(start?, stop?)\<close>)
  never raises and returns a plain list, not a SortedSet: the elements at the positions
  \<open>lo, ..., hi - 1\<close>, where \<open>lo\<close> is \<open>start\<close> (0 when absent) and \<open>hi\<close> is \<open>stop\<close> (the length when
  absent), a negative bound counted from the end and every bound clamped into \<open>[0, length]\<close>.
  The full slice is the whole sequence, and for bounds that are not negative the result is
  the sequence cut at \<open>stop\<close> and then at \<open>start\<close>, whatever their size.
\<close>

theorem C9_slicing:
  "step = None \<or> step = Some 1 \<Longrightarrow>
   lo = (case start of None \<Rightarrow> 0
         | Some a \<Rightarrow> if a < 0 then max (a + int (length (items s))) 0
                     else min a (int (length (items s)))) \<Longrightarrow>
   hi = (case stop of None \<Rightarrow> int (length (items s))
         | Some b \<Rightarrow> if b < 0 then max (b + int (length (items s))) 0
                     else min b (int (length (items s)))) \<Longrightarrow>
     SortedSet_getitem s (Slice start stop step) =
       Inr (Sublist (map (\<lambda>k. items s ! k) [nat lo ..< nat hi])) \<and>
     0 \<le> lo \<and> lo \<le> int (length (items s)) \<and> 0 \<le> hi \<and> hi \<le> int (length (items s)) \<and>
     SortedSet_getitem s (Slice None None step) = Inr (Sublist (items s)) \<and>
     (\<forall>a b. 0 \<le> a \<and> 0 \<le> b \<longrightarrow>
        SortedSet_getitem s (Slice (Some a) (Some b) step) =
          Inr (Sublist (drop (nat a) (take (nat b) (items s)))))"
proof -
  assume st: "step = None \<or> step = Some 1"
    and lo: "lo = (case start of None \<Rightarrow> 0
         | Some a \<Rightarrow> if a < 0 then max (a + int (length (items s))) 0
                     else min a (int (length (items s))))"
    and hi: "hi = (case stop of None \<Rightarrow> int (length (items s))
         | Some b \<Rightarrow> if b < 0 then max (b + int (length (items s))) 0
                     else min b (int (length (items s))))"
  have 1: "SortedSet_getitem s (Slice start stop step) =
       Inr (Sublist (map (\<lambda>k. items s ! k) [nat lo ..< nat hi]))"
    by (simp add: SortedSet_getitem_def list_getslice_unit_step [OF st lo hi])
  have 2: "0 \<le> lo \<and> lo \<le> int (length (items s))"
    using lo by (auto split: option.splits)
  have 3: "0 \<le> hi \<and> hi \<le> int (length (items s))"
    using hi by (auto split: option.splits)
  have "list_getslice (items s) None None step = Inr (map ((!) (items s)) [0 ..< length (items s)])"
    using list_getslice_unit_step [where stepo = step and starto = None and stopo = None
        and xs = "items s" and lo = 0 and hi = "int (length (items s))"] st
    by simp
  then have 4: "SortedSet_getitem s (Slice None None step) = Inr (Sublist (items s))"
    by (simp add: SortedSet_getitem_def map_nth)
  have 5: "SortedSet_getitem s (Slice (Some a) (Some b) step) =
          Inr (Sublist (drop (nat a) (take (nat b) (items s))))" if ab: "0 \<le> a \<and> 0 \<le> b" for a b
  proof -
    let ?n = "length (items s)"
    have g: "list_getslice (items s) (Some a) (Some b) step =
        Inr (map ((!) (items s)) [nat (min a (int ?n)) ..< nat (min b (int ?n))])"
      using list_getslice_unit_step [where stepo = step and starto = "Some a"
          and stopo = "Some b" and xs = "items s" and lo = "min a (int ?n)"
          and hi = "min b (int ?n)"] st ab
      by auto
    have la: "nat (min a (int ?n)) = min (nat a) ?n" using ab by auto
    have lb: "nat (min b (int ?n)) = min (nat b) ?n" using ab by auto
    have "map ((!) (items s)) [min (nat a) ?n ..< min (nat b) ?n] =
          drop (nat a) (take (nat b) (items s))"
      by (rule map_nth_drop_take)
    then show ?thesis by (simp add: SortedSet_getitem_def g la lb)
  qed
  show ?thesis using 1 2 3 4 5 by blast
qed

theorem C9_slicing_witness:
  "SortedSet_getitem (SortedSet (Some [1, 4, 9, 13, 15 :: int])) (Slice None (Some 3) None)
     = Inr (Sublist [1, 4, 9]) \<and>
   SortedSet_getitem (SortedSet (Some [1, 4, 9, 13, 15 :: int])) (Slice None None None)
     = Inr (Sublist [1, 4, 9, 13, 15])"
proof -
  have i: "items (SortedSet (Some [1, 4, 9, 13, 15 :: int])) = [1, 4, 9, 13, 15]"
    by code_simp
  have u: "[0 ..< 3] = [0, 1, 2]" by code_simp
  show ?thesis
    using C9_slicing [where step = None and start = None and stop = "Some 3" and lo = 0
        and hi = 3 and s = "SortedSet (Some [1, 4, 9, 13, 15 :: int])"]
    by (simp add: i u)
qed

end
